theory Spec2Isabelle
  imports Complex_Main "HOL-Library.Multiset"
begin

section \<open>Pairwise Euclidean distance matrices\<close>

text \<open>
  The notebook computes the matrix of pairwise Euclidean distances between the rows of a
  dataset, first sequentially and then in several partitioned forms. The builders are
  modelled on numbers in exact arithmetic: a number is a \<^typ>\<open>real\<close>, a vector a
  \<^typ>\<open>real list\<close>, a dataset and a matrix a list of rows. This is what the code
  computes as long as its numbers stay within the range of Python's floats. Beyond that range
  the arithmetic of the distance function raises \<open>OverflowError\<close>; the distance function
  and the sequential builder are therefore modelled a second time, on Python's ints and
  floats, as \<open>eucl_dist_num\<close> and \<open>eucl_dist_matrix_num\<close>. Within the float range
  they return what the models in exact arithmetic return (lemmas \<open>eucl_dist_num_value\<close>
  and \<open>eucl_dist_matrix_num_in_range\<close>).
  Every exception the code can raise is a value of \<open>error\<close>, returned on the left of a
  sum.
\<close>

datatype error = IndexError | ValueError | ZeroDivisionError | OverflowError

subsection \<open>The distance function\<close>

text \<open>
  \<^verbatim>\<open>
  def eucl_dist(x, y):
      return sqrt(sum([(x_ - y_)**2 for x_, y_ in zip(x, y)]))
  \<close>
  \<open>zip\<close> stops at the end of the shorter argument, in Python as in HOL. The bound
  variables \<open>xk\<close>, \<open>yk\<close> stand for the source's \<open>x_\<close>, \<open>y_\<close>. \<open>eucl_dist\<close>
  is the value the function returns, in exact arithmetic; that the call can raise
  \<open>OverflowError\<close> on large numbers is the subject of \<open>eucl_dist_num\<close> below, which
  returns the value of \<open>eucl_dist\<close> on all inputs within the float range
  (lemma \<open>eucl_dist_num_value\<close>).
\<close>

definition eucl_dist :: "real list \<Rightarrow> real list \<Rightarrow> real" where
  "eucl_dist x y = sqrt (sum_list (map (\<lambda>(xk, yk). (xk - yk)\<^sup>2) (zip x y)))"

subsection \<open>Python primitives that can raise\<close>

text \<open>Subscription \<open>xs[i]\<close> and item assignment \<open>xs[i] = v\<close> at a non-negative index.\<close>

definition getitem :: "'a list \<Rightarrow> nat \<Rightarrow> error + 'a" where
  "getitem xs i = (if i < length xs then Inr (xs ! i) else Inl IndexError)"

definition setitem :: "'a list \<Rightarrow> nat \<Rightarrow> 'a \<Rightarrow> error + 'a list" where
  "setitem xs i v = (if i < length xs then Inr (xs[i := v]) else Inl IndexError)"

text \<open>Sequencing: the first exception ends the computation.\<close>

fun bind :: "error + 'a \<Rightarrow> ('a \<Rightarrow> error + 'b) \<Rightarrow> error + 'b" where
  "bind (Inl e) f = Inl e"
| "bind (Inr a) f = f a"

text \<open>A \<open>for\<close> loop over a list of indices, threading the state through its body.\<close>

fun for_each :: "'i list \<Rightarrow> ('i \<Rightarrow> 's \<Rightarrow> error + 's) \<Rightarrow> 's \<Rightarrow> error + 's" where
  "for_each [] body s = Inr s"
| "for_each (i # is) body s = bind (body i s) (for_each is body)"

text \<open>Floor division \<open>a // b\<close> and \<open>range(start, stop, step)\<close> on integers.\<close>

definition floordiv :: "int \<Rightarrow> int \<Rightarrow> error + int" where
  "floordiv a b = (if b = 0 then Inl ZeroDivisionError else Inr (a div b))"

definition range3 :: "int \<Rightarrow> int \<Rightarrow> int \<Rightarrow> error + int list" where
  "range3 start stop step =
     (if step = 0 then Inl ValueError
      else if 0 < step then
        Inr (map (\<lambda>k. start + int k * step) [0..<nat ((stop - start + step - 1) div step)])
      else
        Inr (map (\<lambda>k. start + int k * step) [0..<nat ((start - stop - step - 1) div (- step))]))"

subsection \<open>The distance function on Python's numbers\<close>

text \<open>
  The components of a vector are Python ints, which are unbounded, or Python floats. A float
  is taken as the real number it denotes, or is one of \<open>inf\<close>, \<open>-inf\<close> and \<open>nan\<close>.
  Results within the float range are not rounded; a result whose magnitude reaches
  \<open>float_limit\<close>, the least real that rounds to infinity, overflows.
\<close>

datatype pyfloat = Finite real | PosInf | NegInf | NaN

datatype number = IntNum int | FloatNum pyfloat

definition float_limit :: real where
  "float_limit = 2 ^ 1024 - 2 ^ 970"

text \<open>
  The sum and the difference of two floats overflow silently to an infinity; the infinities
  and \<open>nan\<close> follow IEEE 754.
\<close>

definition rounded :: "real \<Rightarrow> pyfloat" where
  "rounded r =
     (if float_limit \<le> r then PosInf else if r \<le> - float_limit then NegInf else Finite r)"

fun float_sub :: "pyfloat \<Rightarrow> pyfloat \<Rightarrow> pyfloat" where
  "float_sub (Finite r) (Finite s) = rounded (r - s)"
| "float_sub NaN w = NaN"
| "float_sub v NaN = NaN"
| "float_sub PosInf PosInf = NaN"
| "float_sub NegInf NegInf = NaN"
| "float_sub PosInf w = PosInf"
| "float_sub NegInf w = NegInf"
| "float_sub (Finite r) PosInf = NegInf"
| "float_sub (Finite r) NegInf = PosInf"

fun float_add :: "pyfloat \<Rightarrow> pyfloat \<Rightarrow> pyfloat" where
  "float_add (Finite r) (Finite s) = rounded (r + s)"
| "float_add NaN w = NaN"
| "float_add v NaN = NaN"
| "float_add PosInf NegInf = NaN"
| "float_add NegInf PosInf = NaN"
| "float_add PosInf w = PosInf"
| "float_add NegInf w = NegInf"
| "float_add (Finite r) PosInf = PosInf"
| "float_add (Finite r) NegInf = NegInf"

text \<open>
  \<^verbatim>\<open>v ** 2\<close> on a float raises \<open>OverflowError\<close> when the square of a finite \<open>v\<close> is
  out of range; the square of an infinity is \<open>inf\<close>.
\<close>

definition float_pow2 :: "pyfloat \<Rightarrow> error + pyfloat" where
  "float_pow2 v =
     (case v of
        Finite r \<Rightarrow> if float_limit \<le> r\<^sup>2 then Inl OverflowError else Inr (Finite (r\<^sup>2))
      | PosInf \<Rightarrow> Inr PosInf
      | NegInf \<Rightarrow> Inr PosInf
      | NaN \<Rightarrow> Inr NaN)"

text \<open>
  An int is converted to a float where it meets one, in \<open>int - float\<close>, \<open>int + float\<close>
  and \<open>math.sqrt(int)\<close>; the conversion raises \<open>OverflowError\<close> ("int too large to
  convert to float") when the int is out of range.
\<close>

definition as_float :: "number \<Rightarrow> error + pyfloat" where
  "as_float a =
     (case a of
        IntNum i \<Rightarrow>
          if float_limit \<le> \<bar>real_of_int i\<bar> then Inl OverflowError
          else Inr (Finite (real_of_int i))
      | FloatNum v \<Rightarrow> Inr v)"

text \<open>
  \<^verbatim>\<open>a - b\<close>, \<^verbatim>\<open>a + b\<close> and \<^verbatim>\<open>a ** 2\<close>: exact on ints, float operations otherwise.
\<close>

fun num_sub :: "number \<Rightarrow> number \<Rightarrow> error + number" where
  "num_sub (IntNum i) (IntNum j) = Inr (IntNum (i - j))"
| "num_sub a b = bind (as_float a) (\<lambda>v. bind (as_float b) (\<lambda>w. Inr (FloatNum (float_sub v w))))"

fun num_add :: "number \<Rightarrow> number \<Rightarrow> error + number" where
  "num_add (IntNum i) (IntNum j) = Inr (IntNum (i + j))"
| "num_add a b = bind (as_float a) (\<lambda>v. bind (as_float b) (\<lambda>w. Inr (FloatNum (float_add v w))))"

fun num_pow2 :: "number \<Rightarrow> error + number" where
  "num_pow2 (IntNum i) = Inr (IntNum (i\<^sup>2))"
| "num_pow2 (FloatNum v) = bind (float_pow2 v) (\<lambda>w. Inr (FloatNum w))"

text \<open>
  \<open>math.sqrt\<close> converts its argument to a float and raises \<open>ValueError\<close> on a
  negative one.
\<close>

definition math_sqrt :: "number \<Rightarrow> error + number" where
  "math_sqrt a =
     bind (as_float a) (\<lambda>v.
       case v of
         Finite r \<Rightarrow> if r < 0 then Inl ValueError else Inr (FloatNum (Finite (sqrt r)))
       | PosInf \<Rightarrow> Inr (FloatNum PosInf)
       | NegInf \<Rightarrow> Inl ValueError
       | NaN \<Rightarrow> Inr (FloatNum NaN))"

text \<open>
  The body of \<open>eucl_dist\<close> with these operations: the list comprehension evaluates the
  squared differences from left to right, \<open>sum\<close> adds them up starting from the int \<open>0\<close>,
  and \<open>sqrt\<close> is applied to the total. The first exception ends the call.
\<close>

fun squared_differences :: "(number \<times> number) list \<Rightarrow> error + number list" where
  "squared_differences [] = Inr []"
| "squared_differences ((a, b) # ps) =
     bind (bind (num_sub a b) num_pow2) (\<lambda>e.
     bind (squared_differences ps) (\<lambda>es. Inr (e # es)))"

fun sum_from :: "number \<Rightarrow> number list \<Rightarrow> error + number" where
  "sum_from acc [] = Inr acc"
| "sum_from acc (e # es) = bind (num_add acc e) (\<lambda>acc'. sum_from acc' es)"

definition eucl_dist_num :: "number list \<Rightarrow> number list \<Rightarrow> error + number" where
  "eucl_dist_num x y =
     bind (squared_differences (zip x y)) (\<lambda>e. bind (sum_from (IntNum 0) e) math_sqrt)"

text \<open>
  The real value of an int or a finite float, and the inputs on which no operation of
  \<open>eucl_dist\<close> leaves the float range: the components at the positions that \<open>zip\<close>
  pairs are in range, and so is the sum of their squared differences.
\<close>

fun num_val :: "number \<Rightarrow> real" where
  "num_val (IntNum i) = real_of_int i"
| "num_val (FloatNum (Finite r)) = r"
| "num_val (FloatNum v) = 0"

fun in_range :: "number \<Rightarrow> bool" where
  "in_range (IntNum i) \<longleftrightarrow> \<bar>real_of_int i\<bar> < float_limit"
| "in_range (FloatNum (Finite r)) \<longleftrightarrow> \<bar>r\<bar> < float_limit"
| "in_range (FloatNum v) \<longleftrightarrow> False"

definition in_float_range :: "number list \<Rightarrow> number list \<Rightarrow> bool" where
  "in_float_range x y \<longleftrightarrow>
     list_all (\<lambda>(a, b). in_range a \<and> in_range b) (zip x y) \<and>
     sum_list (map (\<lambda>(a, b). (num_val a - num_val b)\<^sup>2) (zip x y)) < float_limit"

subsection \<open>The sequential matrix builder\<close>

text \<open>
  \<^verbatim>\<open>
  def empty_square_matrix(n):
      D = []
      for i in range(n):
          row = []
          for j in range(n):
              row.append(0)
          D.append(row)
      return D
  \<close>
  Every row is a fresh list, so no two rows of the matrix are aliases.
\<close>

definition empty_square_matrix :: "nat \<Rightarrow> real list list" where
  "empty_square_matrix n =
     fold (\<lambda>i D. D @ [fold (\<lambda>j row. row @ [0]) [0..<n] []]) [0..<n] []"

text \<open>
  The statement \<^verbatim>\<open>D[i][j] = eucl_dist(X[i], X[j])\<close>, which the notebook also names
  \<^verbatim>\<open>task(D, X, i, j)\<close>: the right-hand side is evaluated first, then row \<open>i\<close> of
  \<open>D\<close> is fetched and its item \<open>j\<close> is overwritten in place.
\<close>

definition task :: "real list list \<Rightarrow> real list list \<Rightarrow> nat \<Rightarrow> nat \<Rightarrow> error + real list list" where
  "task D X i j =
     bind (getitem X i) (\<lambda>xi.
     bind (getitem X j) (\<lambda>xj.
     bind (getitem D i) (\<lambda>row.
     bind (setitem row j (eucl_dist xi xj)) (\<lambda>row'.
     setitem D i row'))))"

text \<open>
  \<^verbatim>\<open>
  def eucl_dist_matrix(X):
      n = len(X)
      D = empty_square_matrix(n)
      for i in range(n):
          for j in range(n):
              D[i][j] = eucl_dist(X[i], X[j])
      return D
  \<close>
\<close>

definition eucl_dist_matrix :: "real list list \<Rightarrow> error + real list list" where
  "eucl_dist_matrix X =
     (let n = length X;
          D = empty_square_matrix n
      in for_each [0..<n] (\<lambda>i. for_each [0..<n] (\<lambda>j D. task D X i j)) D)"

text \<open>
  \<^verbatim>\<open>
  def eucl_dist_matrix_shuffled(X):
      n = len(X)
      D = empty_square_matrix(n)
      for i in random.sample(range(n), k=n):
          for j in random.sample(range(n), k=n):
              D[i][j] = eucl_dist(X[i], X[j])
      return D
  \<close>
  The random draws are an input of the model: \<open>samples\<close> lists, in the order of the
  outer loop, each row index together with the column order drawn for it.
  \<open>random.sample(range(n), k=n)\<close> returns the \<open>n\<close> indices in some order without
  repetition, which \<open>valid_samples\<close> states.
\<close>

definition eucl_dist_matrix_shuffled ::
    "real list list \<Rightarrow> (nat \<times> nat list) list \<Rightarrow> error + real list list" where
  "eucl_dist_matrix_shuffled X samples =
     (let n = length X;
          D = empty_square_matrix n
      in for_each samples (\<lambda>(i, js). for_each js (\<lambda>j D. task D X i j)) D)"

definition valid_samples :: "nat \<Rightarrow> (nat \<times> nat list) list \<Rightarrow> bool" where
  "valid_samples n samples \<longleftrightarrow>
     mset (map fst samples) = mset [0..<n] \<and>
     list_all (\<lambda>(i, js). mset js = mset [0..<n]) samples"

subsection \<open>The sequential builder on Python's numbers\<close>

text \<open>
  The sequential builder once more, its numbers now Python's ints and floats: the matrix
  starts with the int \<open>0\<close> in every cell, and a cell is assigned only when the call of
  \<open>eucl_dist\<close> has returned, so an \<open>OverflowError\<close> of the distance function ends the
  builder. A dataset is within the float range when every pair of its rows is.
\<close>

definition empty_square_matrix_num :: "nat \<Rightarrow> number list list" where
  "empty_square_matrix_num n =
     fold (\<lambda>i D. D @ [fold (\<lambda>j row. row @ [IntNum 0]) [0..<n] []]) [0..<n] []"

definition task_num ::
    "number list list \<Rightarrow> number list list \<Rightarrow> nat \<Rightarrow> nat \<Rightarrow> error + number list list" where
  "task_num D X i j =
     bind (getitem X i) (\<lambda>xi.
     bind (getitem X j) (\<lambda>xj.
     bind (eucl_dist_num xi xj) (\<lambda>d.
     bind (getitem D i) (\<lambda>row.
     bind (setitem row j d) (\<lambda>row'.
     setitem D i row')))))"

definition eucl_dist_matrix_num :: "number list list \<Rightarrow> error + number list list" where
  "eucl_dist_matrix_num X =
     (let n = length X;
          D = empty_square_matrix_num n
      in for_each [0..<n] (\<lambda>i. for_each [0..<n] (\<lambda>j D. task_num D X i j)) D)"

definition dataset_in_float_range :: "number list list \<Rightarrow> bool" where
  "dataset_in_float_range X \<longleftrightarrow> list_all (\<lambda>a. list_all (\<lambda>b. in_float_range a b) X) X"

subsection \<open>The thread-partitioned builder\<close>

text \<open>
  \<^verbatim>\<open>
  def task_4(D, X, i, chunk_size):
      D[i:i+chunk_size] = cdist(X[i:i+chunk_size], X)

  def eucl_dist_matrix_thr_4(X, n_jobs=8):
      X = np.array(X)
      n = len(X)
      D = np.zeros((n, n))
      chunk_size = n // n_jobs
      threads = []
      for i in range(0, n, chunk_size):
          t = Thread(target=task_4, args=(D, X, i, chunk_size))
          t.start()
          threads.append(t)
      for t in threads:
          t.join()
      return D
  \<close>
  The NumPy and SciPy calls are library code; they are modelled by what they do on
  two-dimensional arrays, an array being the list of its rows.
  \<^item> \<open>np.array(X)\<close> accepts rows of one common length and raises \<open>ValueError\<close> on a
    ragged list (NumPy 1.24 and later).
  \<^item> \<open>np.zeros((n, n))\<close> is the \<open>n\<close> by \<open>n\<close> array of zeros.
  \<^item> A slice \<open>A[lo:hi]\<close> clips both bounds to the array, a negative bound counting
    from the end. Assigning to a slice never resizes the array: the value must have as many
    rows as the slice, or one row, which is then repeated.
  \<^item> \<open>cdist(XA, XB)\<close> holds at \<open>(r, s)\<close> the Euclidean distance between row \<open>r\<close>
    of \<open>XA\<close> and row \<open>s\<close> of \<open>XB\<close>, computed over the columns of the array. Both
    arguments are row blocks of the same array here, so they have the same columns.
\<close>

definition np_array :: "real list list \<Rightarrow> error + real list list" where
  "np_array X =
     (case X of
        [] \<Rightarrow> Inr []
      | row # rows \<Rightarrow>
          if list_all (\<lambda>r. length r = length row) rows then Inr X else Inl ValueError)"

definition np_zeros :: "nat \<Rightarrow> real list list" where
  "np_zeros n = replicate n (replicate n 0)"

definition slice_index :: "nat \<Rightarrow> int \<Rightarrow> nat" where
  "slice_index len k = (if k < 0 then nat (max 0 (k + int len)) else min (nat k) len)"

definition getslice :: "'a list \<Rightarrow> int \<Rightarrow> int \<Rightarrow> 'a list" where
  "getslice xs lo hi =
     (let a = slice_index (length xs) lo;
          b = slice_index (length xs) hi
      in take (b - a) (drop a xs))"

definition setslice :: "'a list \<Rightarrow> int \<Rightarrow> int \<Rightarrow> 'a list \<Rightarrow> error + 'a list" where
  "setslice xs lo hi vs =
     (let a = slice_index (length xs) lo;
          b = max a (slice_index (length xs) hi)
      in if length vs = b - a then Inr (take a xs @ vs @ drop b xs)
         else if length vs = 1 then Inr (take a xs @ replicate (b - a) (vs ! 0) @ drop b xs)
         else Inl ValueError)"

definition cdist :: "real list list \<Rightarrow> real list list \<Rightarrow> real list list" where
  "cdist XA XB =
     map (\<lambda>a. map (\<lambda>b. sqrt (sum_list (map (\<lambda>k. (a ! k - b ! k)\<^sup>2) [0..<length a]))) XB) XA"

definition task_4 :: "real list list \<Rightarrow> real list list \<Rightarrow> int \<Rightarrow> int \<Rightarrow> error + real list list" where
  "task_4 D X i chunk_size =
     setslice D i (i + chunk_size) (cdist (getslice X i (i + chunk_size)) X)"

text \<open>
  A thread works on the shared matrix. An exception raised inside a thread ends that
  thread only and is not raised in the caller; the writes made before it stay. The threads
  write disjoint row blocks and are all joined before the matrix is returned; the model
  runs them one after the other in the order in which they are started.
\<close>

definition run_thread :: "('s \<Rightarrow> error + 's) \<Rightarrow> 's \<Rightarrow> 's" where
  "run_thread target s = (case target s of Inl e \<Rightarrow> s | Inr s' \<Rightarrow> s')"

definition eucl_dist_matrix_thr_4 :: "real list list \<Rightarrow> int \<Rightarrow> error + real list list" where
  "eucl_dist_matrix_thr_4 X0 n_jobs =
     bind (np_array X0) (\<lambda>X.
       let n = length X;
           D = np_zeros n
       in bind (floordiv (int n) n_jobs) (\<lambda>chunk_size.
          bind (range3 0 (int n) chunk_size) (\<lambda>starts.
            Inr (fold (\<lambda>i. run_thread (\<lambda>D. task_4 D X i chunk_size)) starts D))))"

subsection \<open>The process-partitioned builder\<close>

text \<open>
  \<^verbatim>\<open>
  def task_p(D, X, k, chunk_size):
      for i in range(k, min(k+chunk_size, len(X))):
          for j in range(len(X)):
              D[i][j] = eucl_dist(X[i], X[j])

  def eucl_dist_matrix_p(X):
      n = len(X)
      D = empty_square_matrix(n)
      threads = []
      chunk_size = n // 8
      for i in range(0, n, chunk_size):
          t = Process(target=task_p, args=(D, X, i, chunk_size))
          t.start()
          threads.append(t)
      for t in threads:
          t.join()
      return D
  \<close>
  A child process works on its own copy of \<open>D\<close>: neither its writes nor its exceptions
  reach the parent, as the notebook itself remarks (\<open>D\<close> "is never sent back to the
  parent"). The start indices come from \<open>range(0, n, chunk_size)\<close> and are never
  negative, so \<open>task_p\<close> takes them as natural numbers.
\<close>

definition task_p :: "real list list \<Rightarrow> real list list \<Rightarrow> nat \<Rightarrow> nat \<Rightarrow> error + real list list" where
  "task_p D X k chunk_size =
     for_each [k..<min (k + chunk_size) (length X)]
       (\<lambda>i. for_each [0..<length X] (\<lambda>j D. task D X i j)) D"

definition run_process :: "('s \<Rightarrow> error + 's) \<Rightarrow> 's \<Rightarrow> 's" where
  "run_process target s = s"

definition eucl_dist_matrix_p :: "real list list \<Rightarrow> error + real list list" where
  "eucl_dist_matrix_p X =
     (let n = length X;
          D = empty_square_matrix n
      in bind (floordiv (int n) 8) (\<lambda>chunk_size.
         bind (range3 0 (int n) chunk_size) (\<lambda>starts.
           Inr (fold (\<lambda>i. run_process (\<lambda>D. task_p D X (nat i) (nat chunk_size))) starts D))))"

subsection \<open>Datasets of equal-length rows\<close>

text \<open>The datasets of the specification: all rows have the same length.\<close>

definition equal_length_rows :: "real list list \<Rightarrow> bool" where
  "equal_length_rows X \<longleftrightarrow> (\<forall>a \<in> set X. \<forall>b \<in> set X. length a = length b)"

subsection \<open>The matrix of the specification\<close>

text \<open>
  The matrix the specification describes: entry \<open>(i, j)\<close> is the distance between
  rows \<open>i\<close> and \<open>j\<close>.
\<close>

definition distance_matrix_spec :: "real list list \<Rightarrow> real list list" where
  "distance_matrix_spec X = map (\<lambda>a. map (\<lambda>b. eucl_dist a b) X) X"

section \<open>Properties of the distance function\<close>

lemma sum_squares_zip:
  "sum_list (map (\<lambda>(a, b). (a - b)\<^sup>2) (zip x y)) =
     (\<Sum>i<min (length x) (length y). (x ! i - y ! i)\<^sup>2)" for x y :: "real list"
proof -
  have "sum_list (map (\<lambda>(a, b). (a - b)\<^sup>2) (zip x y)) =
        (\<Sum>i = 0..<length (zip x y). (map (\<lambda>(a, b). (a - b)\<^sup>2) (zip x y)) ! i)"
    by (simp add: sum_list_sum_nth)
  also have "\<dots> = (\<Sum>i = 0..<min (length x) (length y). (x ! i - y ! i)\<^sup>2)"
    by (rule sum.cong) auto
  finally show ?thesis by (simp add: lessThan_atLeast0)
qed


lemma eucl_dist_commute: "eucl_dist x y = eucl_dist y x"
proof -
  have "(\<Sum>i<min (length x) (length y). (x ! i - y ! i)\<^sup>2) =
        (\<Sum>i<min (length y) (length x). (y ! i - x ! i)\<^sup>2)"
    by (simp add: min.commute power2_commute)
  then show ?thesis by (simp add: eucl_dist_def sum_squares_zip)
qed

lemma eucl_dist_self: "eucl_dist x x = 0"
  by (simp add: eucl_dist_def sum_squares_zip)

section \<open>The loops of the builders\<close>

lemma fold_append_const:
  "fold (\<lambda>i acc. acc @ [c]) xs acc0 = acc0 @ replicate (length xs) c"
  by (induction xs arbitrary: acc0) (simp_all add: replicate_app_Cons_same)

lemma empty_square_matrix_eq:
  "empty_square_matrix n = replicate n (replicate n 0)"
  by (simp add: empty_square_matrix_def fold_append_const)

lemma task_ok:
  assumes "i < length X" "j < length X" "i < length D" "j < length (D ! i)"
  shows "task D X i j = Inr (D[i := (D ! i)[j := eucl_dist (X ! i) (X ! j)]])"
  using assms by (simp add: task_def getitem_def setitem_def)

lemma row_loop:
  assumes "length X = n" "length D = n" "i < n" "length (D ! i) = n" "set js \<subseteq> {..<n}"
  shows "for_each js (\<lambda>j D. task D X i j) D =
           Inr (D[i := map (\<lambda>j. if j \<in> set js then eucl_dist (X ! i) (X ! j) else D ! i ! j) [0..<n]])"
  using assms
proof (induction js arbitrary: D)
  case Nil
  have "map (\<lambda>j. D ! i ! j) [0..<n] = D ! i"
    using Nil.prems(4) by (metis map_nth)
  then show ?case by simp
next
  case (Cons j js)
  let ?v = "eucl_dist (X ! i) (X ! j)"
  let ?D1 = "D[i := (D ! i)[j := ?v]]"
  have j: "j < n" using Cons.prems by simp
  have t: "task D X i j = Inr ?D1"
    using Cons.prems j by (simp add: task_ok)
  have row1: "?D1 ! i = (D ! i)[j := ?v]" using Cons.prems by simp
  have ih: "for_each js (\<lambda>j D. task D X i j) ?D1 =
     Inr (?D1[i := map (\<lambda>j. if j \<in> set js then eucl_dist (X ! i) (X ! j) else ?D1 ! i ! j) [0..<n]])"
    using Cons.prems by (intro Cons.IH) simp_all
  have m: "map (\<lambda>k. if k \<in> set js then eucl_dist (X ! i) (X ! k) else ?D1 ! i ! k) [0..<n] =
        map (\<lambda>k. if k \<in> set (j # js) then eucl_dist (X ! i) (X ! k) else D ! i ! k) [0..<n]"
    using Cons.prems by (intro map_cong refl) (auto simp: row1 nth_list_update)
  show ?case by (simp only: for_each.simps t bind.simps ih m list_update_overwrite)
qed

lemma matrix_loop:
  assumes "length X = n" "length D = n" "\<forall>r<n. length (D ! r) = n"
    and "\<forall>(i, js) \<in> set sched. i < n \<and> set js = {..<n}"
  shows "for_each sched (\<lambda>(i, js). for_each js (\<lambda>j D. task D X i j)) D =
           Inr (map (\<lambda>r. if r \<in> fst ` set sched
                          then map (\<lambda>j. eucl_dist (X ! r) (X ! j)) [0..<n] else D ! r) [0..<n])"
  using assms
proof (induction sched arbitrary: D)
  case Nil
  have "map (\<lambda>r. D ! r) [0..<n] = D"
    using Nil.prems(2) by (metis map_nth)
  then show ?case by simp
next
  case (Cons p sched)
  obtain i js where p: "p = (i, js)" by (cases p)
  let ?row = "\<lambda>r. map (\<lambda>j. eucl_dist (X ! r) (X ! j)) [0..<n]"
  let ?D1 = "D[i := ?row i]"
  have i: "i < n" and js: "set js = {..<n}"
    using Cons.prems(4) by (simp_all add: p)
  have rest: "\<forall>(i, js) \<in> set sched. i < n \<and> set js = {..<n}"
    using Cons.prems(4) by simp
  have len1: "length ?D1 = n"
    using Cons.prems(2) by simp
  have rows1: "\<forall>r<n. length (?D1 ! r) = n"
    using Cons.prems(2,3) i by (simp add: nth_list_update)
  have "for_each js (\<lambda>j D. task D X i j) D =
     Inr (D[i := map (\<lambda>j. if j \<in> set js then eucl_dist (X ! i) (X ! j) else D ! i ! j) [0..<n]])"
    using Cons.prems(1,2,3) i js by (intro row_loop) simp_all
  moreover have "map (\<lambda>j. if j \<in> set js then eucl_dist (X ! i) (X ! j) else D ! i ! j) [0..<n] = ?row i"
    by (rule map_cong [OF refl]) (simp add: js)
  ultimately have step: "for_each js (\<lambda>j D. task D X i j) D = Inr ?D1"
    by (simp only:)
  have ih: "for_each sched (\<lambda>(i, js). for_each js (\<lambda>j D. task D X i j)) ?D1 =
           Inr (map (\<lambda>r. if r \<in> fst ` set sched then ?row r else ?D1 ! r) [0..<n])"
    by (rule Cons.IH [OF Cons.prems(1) len1 rows1 rest])
  have fsts: "fst ` set (p # sched) = insert i (fst ` set sched)"
    by (simp add: p)
  have pt: "(if r \<in> fst ` set sched then ?row r else ?D1 ! r) =
            (if r \<in> fst ` set (p # sched) then ?row r else D ! r)" if "r < n" for r
  proof (cases "r = i")
    case True
    have "?D1 ! i = ?row i"
      using Cons.prems(2) i by (simp only: nth_list_update_eq)
    moreover have "i \<in> fst ` set (p # sched)"
      by (simp only: fsts insertI1)
    ultimately show ?thesis
      by (simp only: True if_True if_cancel)
  next
    case False
    then have "?D1 ! r = D ! r"
      by (simp only: nth_list_update_neq not_sym)
    moreover have "r \<in> fst ` set (p # sched) \<longleftrightarrow> r \<in> fst ` set sched"
      using False by (simp only: fsts insert_iff) simp
    ultimately show ?thesis
      by (simp only:)
  qed
  have m: "map (\<lambda>r. if r \<in> fst ` set sched then ?row r else ?D1 ! r) [0..<n] =
        map (\<lambda>r. if r \<in> fst ` set (p # sched) then ?row r else D ! r) [0..<n]"
    by (rule map_cong [OF refl]) (simp only: pt atLeastLessThan_iff set_upt)
  have "for_each (p # sched) (\<lambda>(i, js). for_each js (\<lambda>j D. task D X i j)) D =
        for_each sched (\<lambda>(i, js). for_each js (\<lambda>j D. task D X i j)) ?D1"
    by (simp add: p step)
  then show ?case by (simp only: ih m)
qed

lemma map_over_indices: "map (\<lambda>i. f (xs ! i)) [0..<length xs] = map f xs"
proof -
  have "map (\<lambda>i. f (xs ! i)) [0..<length xs] = map f (map (\<lambda>i. xs ! i) [0..<length xs])"
    by (simp only: map_map comp_def)
  then show ?thesis by (simp only: map_nth)
qed

lemma distance_matrix_spec_nth:
  "distance_matrix_spec X =
     map (\<lambda>r. map (\<lambda>j. eucl_dist (X ! r) (X ! j)) [0..<length X]) [0..<length X]"
proof -
  have "map (\<lambda>r. map (\<lambda>j. eucl_dist (X ! r) (X ! j)) [0..<length X]) [0..<length X] =
        map (\<lambda>r. (\<lambda>a. map (\<lambda>b. eucl_dist a b) X) (X ! r)) [0..<length X]"
    by (simp only: map_over_indices)
  also have "\<dots> = map (\<lambda>a. map (\<lambda>b. eucl_dist a b) X) X"
    by (rule map_over_indices)
  finally show ?thesis by (simp only: distance_matrix_spec_def)
qed

lemma for_each_map: "for_each (map f xs) body s = for_each xs (\<lambda>x. body (f x)) s"
proof (induction xs arbitrary: s)
  case Nil
  then show ?case by simp
next
  case (Cons x xs)
  then show ?case by (cases "body (f x) s") simp_all
qed

lemma shuffled_any_order:
  assumes "fst ` set sched = {..<length X}" "\<forall>(i, js) \<in> set sched. set js = {..<length X}"
  shows "for_each sched (\<lambda>(i, js). for_each js (\<lambda>j D. task D X i j))
           (empty_square_matrix (length X)) = Inr (distance_matrix_spec X)"
proof -
  let ?n = "length X"
  have b: "\<forall>(i, js) \<in> set sched. i < ?n \<and> set js = {..<?n}"
    using assms by force
  have "for_each sched (\<lambda>(i, js). for_each js (\<lambda>j D. task D X i j)) (empty_square_matrix ?n) =
           Inr (map (\<lambda>r. if r \<in> fst ` set sched
                          then map (\<lambda>j. eucl_dist (X ! r) (X ! j)) [0..<?n]
                          else empty_square_matrix ?n ! r) [0..<?n])"
    using b by (intro matrix_loop) (simp_all add: empty_square_matrix_eq)
  also have "\<dots> = Inr (distance_matrix_spec X)"
    by (simp add: distance_matrix_spec_nth assms(1))
  finally show ?thesis .
qed

lemma eucl_dist_matrix_eq: "eucl_dist_matrix X = Inr (distance_matrix_spec X)"
proof -
  let ?n = "length X"
  have "eucl_dist_matrix X =
        for_each (map (\<lambda>i. (i, [0..<?n])) [0..<?n]) (\<lambda>(i, js). for_each js (\<lambda>j D. task D X i j))
          (empty_square_matrix ?n)"
    by (simp add: eucl_dist_matrix_def Let_def for_each_map)
  also have "\<dots> = Inr (distance_matrix_spec X)"
    by (rule shuffled_any_order) (auto simp: image_image)
  finally show ?thesis .
qed

section \<open>Auxiliary facts\<close>

lemma distance_matrix_spec_entries:
  "length (distance_matrix_spec X) = length X"
  "i < length X \<Longrightarrow> length (distance_matrix_spec X ! i) = length X"
  "i < length X \<Longrightarrow> j < length X \<Longrightarrow> distance_matrix_spec X ! i ! j = eucl_dist (X ! i) (X ! j)"
  by (simp_all add: distance_matrix_spec_def)

lemma sqrt_25: "sqrt 25 = 5"
proof -
  have "sqrt 25 = sqrt (5\<^sup>2)" by simp
  also have "\<dots> = 5" by (simp only: real_sqrt_abs abs_numeral)
  finally show ?thesis .
qed

lemma valid_samples_sets:
  assumes "valid_samples n samples"
  shows "fst ` set samples = {..<n}" "\<forall>(i, js) \<in> set samples. set js = {..<n}"
proof -
  have "set (map fst samples) = set [0..<n]"
    using assms unfolding valid_samples_def by (metis mset_eq_setD)
  then show "fst ` set samples = {..<n}" by (simp add: lessThan_atLeast0)
  have "set js = {..<n}" if "(i, js) \<in> set samples" for i js
  proof -
    have "mset js = mset [0..<n]"
      using assms that unfolding valid_samples_def list_all_iff by auto
    then have "set js = set [0..<n]" by (rule mset_eq_setD)
    then show ?thesis by (simp add: lessThan_atLeast0)
  qed
  then show "\<forall>(i, js) \<in> set samples. set js = {..<n}" by auto
qed

section \<open>The thread-partitioned builder on chunks that fit\<close>

text \<open>
  When \<open>1 \<le> n_jobs \<le> n\<close> the chunk size is positive, the start indices
  \<open>0, c, 2c, \<dots>\<close> cover every row, and each task overwrites its block of rows with
  the distances of those rows. The row blocks are characterised through the set of start
  indices only, so the order in which the tasks take effect does not matter.
\<close>

lemma np_array_equal_length:
  assumes "equal_length_rows X"
  shows "np_array X = Inr X"
proof (cases X)
  case Nil
  then show ?thesis by (simp add: np_array_def)
next
  case (Cons row rows)
  have "\<forall>a \<in> set (row # rows). \<forall>b \<in> set (row # rows). length a = length b"
    using assms unfolding equal_length_rows_def Cons .
  then have "\<forall>r \<in> set rows. length r = length row"
    by (metis list.set_intros(1,2))
  then have "list_all (\<lambda>r. length r = length row) rows"
    by (simp only: list_all_iff)
  then show ?thesis by (simp only: np_array_def Cons list.case if_True)
qed

lemma cdist_entry:
  assumes "length a = length b"
  shows "sqrt (sum_list (map (\<lambda>k. (a ! k - b ! k)\<^sup>2) [0..<length a])) = eucl_dist a b"
proof -
  have "sum_list (map (\<lambda>k. (a ! k - b ! k)\<^sup>2) [0..<length a]) =
        (\<Sum>k<length a. (a ! k - b ! k)\<^sup>2)"
    by (simp only: interv_sum_list_conv_sum_set_nat set_upt lessThan_atLeast0)
  moreover have "min (length a) (length b) = length a"
    using assms by simp
  ultimately show ?thesis
    by (simp only: eucl_dist_def sum_squares_zip)
qed

lemma cdist_block:
  assumes "equal_length_rows X" "set A \<subseteq> set X"
  shows "cdist A X = map (\<lambda>a. map (\<lambda>b. eucl_dist a b) X) A"
proof -
  have "sqrt (sum_list (map (\<lambda>k. (a ! k - b ! k)\<^sup>2) [0..<length a])) = eucl_dist a b"
    if "a \<in> set A" "b \<in> set X" for a b
    using that assms unfolding equal_length_rows_def by (intro cdist_entry) blast
  then show ?thesis
    unfolding cdist_def by (intro map_cong refl) simp
qed

lemma task_4_block:
  assumes "length D = length X" "k < length X" "0 < c"
  shows "task_4 D X (int k) (int c) =
           Inr (take k D @ cdist (take c (drop k X)) X @ drop (k + c) D)"
proof -
  let ?n = "length X"
  have lo: "slice_index ?n (int k) = k"
    using assms by (simp add: slice_index_def)
  have hi: "slice_index ?n (int k + int c) = min (k + c) ?n"
    by (simp add: slice_index_def nat_add_distrib)
  have g: "getslice X (int k) (int k + int c) = take c (drop k X)"
    unfolding getslice_def Let_def lo hi using assms by (auto simp: min_def)
  have mx: "max k (min (k + c) ?n) = min (k + c) ?n"
    using assms by simp
  have len: "length (cdist (take c (drop k X)) X) = min (k + c) ?n - k"
    using assms by (auto simp: cdist_def min_def)
  have dr: "drop (min (k + c) ?n) D = drop (k + c) D"
    using assms by (simp add: min_def)
  show ?thesis
    unfolding task_4_def g setslice_def Let_def assms(1) lo hi mx
    by (simp only: len if_True dr simp_thms)
qed

lemma task_4_rows:
  assumes "equal_length_rows X" "length D = length X" "k < length X" "0 < c"
  shows "task_4 D X (int k) (int c) =
           Inr (map (\<lambda>r. if k \<le> r \<and> r < k + c then distance_matrix_spec X ! r else D ! r)
                  [0..<length X])"
proof -
  let ?n = "length X"
  let ?V = "map (\<lambda>a. map (\<lambda>b. eucl_dist a b) X) (take c (drop k X))"
  let ?R = "take k D @ ?V @ drop (k + c) D"
  have "set (take c (drop k X)) \<subseteq> set X"
    by (meson set_drop_subset set_take_subset subset_trans)
  then have cd: "cdist (take c (drop k X)) X = ?V"
    using assms(1) by (rule cdist_block [rotated])
  have lenV: "length ?V = min c (?n - k)" by simp
  have lenR: "length ?R = ?n"
    using assms by (simp add: min_def)
  have "?R ! r = (if k \<le> r \<and> r < k + c then distance_matrix_spec X ! r else D ! r)"
    if r: "r < ?n" for r
  proof -
    consider "r < k" | "k \<le> r" "r < k + c" | "k + c \<le> r" by linarith
    then show ?thesis
    proof cases
      case 1
      then show ?thesis using assms by (simp add: nth_append)
    next
      case 2
      then have "?R ! r = ?V ! (r - k)"
        using assms r by (simp add: nth_append min_def)
      also have "\<dots> = map (\<lambda>b. eucl_dist (take c (drop k X) ! (r - k)) b) X"
        using 2 r by (intro nth_map) (simp, linarith)
      also have "take c (drop k X) ! (r - k) = X ! r"
        using 2 r by simp
      also have "map (\<lambda>b. eucl_dist (X ! r) b) X = distance_matrix_spec X ! r"
        using r by (simp add: distance_matrix_spec_def)
      finally show ?thesis using 2 by simp
    next
      case 3
      have lk: "length (take k D) = k"
        using assms by simp
      have lv: "length ?V = c"
        using 3 r by simp
      have "?R ! r = (?V @ drop (k + c) D) ! (r - k)"
        using 3 by (simp only: nth_append lk) simp
      also have "\<dots> = drop (k + c) D ! (r - k - c)"
        using 3 by (simp only: nth_append lv) simp
      also have "\<dots> = D ! r"
        using 3 r assms by simp
      finally show ?thesis using 3 by simp
    qed
  qed
  then have "?R = map (\<lambda>r. if k \<le> r \<and> r < k + c then distance_matrix_spec X ! r else D ! r) [0..<?n]"
    using lenR by (intro nth_equalityI) simp_all
  then show ?thesis
    using task_4_block [OF assms(2,3,4)] by (simp only: cd)
qed

lemma run_threads_rows:
  assumes "equal_length_rows X" "length D = length X" "\<forall>k \<in> set ks. k < length X" "0 < c"
  shows "fold (\<lambda>i. run_thread (\<lambda>D. task_4 D X i (int c))) (map int ks) D =
           map (\<lambda>r. if \<exists>k \<in> set ks. k \<le> r \<and> r < k + c then distance_matrix_spec X ! r else D ! r)
             [0..<length X]"
  using assms(2,3)
proof (induction ks arbitrary: D)
  case Nil
  have "map (\<lambda>r. D ! r) [0..<length X] = D"
    using Nil.prems(1) by (metis map_nth)
  then show ?case by simp
next
  case (Cons k ks)
  let ?M = "distance_matrix_spec X"
  let ?D1 = "map (\<lambda>r. if k \<le> r \<and> r < k + c then ?M ! r else D ! r) [0..<length X]"
  have k: "k < length X" using Cons.prems(2) by simp
  have step: "run_thread (\<lambda>D. task_4 D X (int k) (int c)) D = ?D1"
    by (simp add: run_thread_def task_4_rows [OF assms(1) Cons.prems(1) k assms(4)])
  have ih: "fold (\<lambda>i. run_thread (\<lambda>D. task_4 D X i (int c))) (map int ks) ?D1 =
     map (\<lambda>r. if \<exists>k \<in> set ks. k \<le> r \<and> r < k + c then ?M ! r else ?D1 ! r) [0..<length X]"
    using Cons.prems(2) by (intro Cons.IH) simp_all
  have m: "map (\<lambda>r. if \<exists>k \<in> set ks. k \<le> r \<and> r < k + c then ?M ! r else ?D1 ! r) [0..<length X] =
       map (\<lambda>r. if \<exists>k' \<in> set (k # ks). k' \<le> r \<and> r < k' + c then ?M ! r else D ! r) [0..<length X]"
    by (rule map_cong [OF refl]) auto
  have "fold (\<lambda>i. run_thread (\<lambda>D. task_4 D X i (int c))) (map int (k # ks)) D =
        fold (\<lambda>i. run_thread (\<lambda>D. task_4 D X i (int c))) (map int ks) ?D1"
    by (simp add: step)
  then show ?case by (simp only: ih m)
qed

lemma range3_chunks:
  assumes "0 < c"
  shows "range3 0 (int n) (int c) = Inr (map int (map (\<lambda>q. q * c) [0..<(n + c - 1) div c]))"
proof -
  have "(int n - 0 + int c - 1) div int c = int ((n + c - 1) div c)"
    using assms by (simp add: zdiv_int of_nat_diff)
  then have "nat ((int n - 0 + int c - 1) div int c) = (n + c - 1) div c"
    by simp
  then show ?thesis
    using assms by (simp add: range3_def comp_def)
qed

lemma chunk_cover:
  assumes "0 < c" "r < n"
  shows "\<exists>k \<in> set (map (\<lambda>q. q * c) [0..<(n + c - 1) div c]). k \<le> r \<and> r < k + c"
proof -
  have "r div c < (n + c - 1) div c"
  proof -
    have "r div c \<le> (n - 1) div c" using assms by (intro div_le_mono) simp
    moreover have "(n - 1 + c) div c = (n - 1) div c + 1"
      using assms(1) by simp
    moreover have "n - 1 + c = n + c - 1" using assms by simp
    ultimately show ?thesis by simp
  qed
  then have "r div c * c \<in> set (map (\<lambda>q. q * c) [0..<(n + c - 1) div c])"
    by (simp add: image_iff) (use atLeastLessThan_iff in blast)
  moreover have "r div c * c \<le> r" by simp
  moreover have "r < r div c * c + c"
    using assms(1) by (metis add.commute dividend_less_div_times mult.commute)
  ultimately show ?thesis by (intro bexI [of _ "r div c * c"] conjI)
qed

lemma chunk_starts_bound:
  assumes "0 < c"
  shows "\<forall>k \<in> set (map (\<lambda>q. q * c) [0..<(n + c - 1) div c]). k < n"
proof -
  have "q * c < n" if "q < (n + c - 1) div c" for q
  proof -
    have "q + 1 \<le> (n + c - 1) div c" using that by simp
    then have "(q + 1) * c \<le> (n + c - 1) div c * c" by (rule mult_le_mono1)
    also have "\<dots> \<le> n + c - 1" by simp
    finally show ?thesis using assms by simp
  qed
  then show ?thesis by auto
qed

lemma thr_4_chunks:
  assumes "equal_length_rows X" "0 < c"
  shows "fold (\<lambda>i. run_thread (\<lambda>D. task_4 D X i (int c)))
           (map int (map (\<lambda>q. q * c) [0..<(length X + c - 1) div c])) (np_zeros (length X)) =
         distance_matrix_spec X"
proof -
  let ?n = "length X"
  let ?ks = "map (\<lambda>q. q * c) [0..<(?n + c - 1) div c]"
  have "fold (\<lambda>i. run_thread (\<lambda>D. task_4 D X i (int c))) (map int ?ks) (np_zeros ?n) =
        map (\<lambda>r. if \<exists>k \<in> set ?ks. k \<le> r \<and> r < k + c then distance_matrix_spec X ! r
                  else np_zeros ?n ! r) [0..<?n]"
    using assms chunk_starts_bound [OF assms(2), of ?n]
    by (intro run_threads_rows) (simp_all add: np_zeros_def)
  also have "\<dots> = map (\<lambda>r. distance_matrix_spec X ! r) [0..<?n]"
    by (rule map_cong [OF refl]) (use chunk_cover [OF assms(2)] in simp)
  also have "\<dots> = distance_matrix_spec X"
    by (metis map_nth distance_matrix_spec_entries(1))
  finally show ?thesis .
qed

lemma eucl_dist_matrix_thr_4_in_range:
  assumes "equal_length_rows X" "1 \<le> n_jobs" "n_jobs \<le> int (length X)"
  shows "eucl_dist_matrix_thr_4 X n_jobs = eucl_dist_matrix X"
proof -
  let ?n = "length X"
  let ?c = "?n div nat n_jobs"
  have c: "0 < ?c"
    using assms(2,3) by (simp add: div_greater_zero_iff nat_le_iff)
  have fd: "floordiv (int ?n) n_jobs = Inr (int ?c)"
    using assms(2) by (simp add: floordiv_def zdiv_int)
  show ?thesis
    unfolding eucl_dist_matrix_thr_4_def
    by (simp only: np_array_equal_length [OF assms(1)] bind.simps Let_def fd range3_chunks [OF c]
        thr_4_chunks [OF assms(1) c] eucl_dist_matrix_eq)
qed

lemma run_threads_any_order:
  assumes "equal_length_rows X" "length D = length X" "\<forall>k \<in> set ks. k < length X" "0 < c"
    and "set ks' = set ks"
  shows "fold (\<lambda>i. run_thread (\<lambda>D. task_4 D X i (int c))) (map int ks') D =
         fold (\<lambda>i. run_thread (\<lambda>D. task_4 D X i (int c))) (map int ks) D"
proof -
  have "\<forall>k \<in> set ks'. k < length X"
    using assms(3,5) by simp
  then show ?thesis
    by (simp only: run_threads_rows [OF assms(1,2) _ assms(4)] assms(3) assms(5))
qed

section \<open>Failures of the partitioned builders\<close>

text \<open>
  With fewer rows than partitions the chunk size \<open>n // n_jobs\<close> is \<open>0\<close> and
  \<open>range(0, n, 0)\<close> raises \<open>ValueError\<close> before any task is started.
\<close>

lemma thr_4_fail:
  "eucl_dist_matrix_thr_4 [[0, 0], [3, 4]] 8 = Inl ValueError"
  by (simp add: eucl_dist_matrix_thr_4_def np_array_def floordiv_def range3_def)

lemma thr_4_empty:
  "eucl_dist_matrix_thr_4 [] 1 = Inl ValueError"
  by (simp add: eucl_dist_matrix_thr_4_def np_array_def floordiv_def range3_def)

lemma p_small:
  "length X < 8 \<Longrightarrow> eucl_dist_matrix_p X = Inl ValueError"
  by (simp add: eucl_dist_matrix_p_def floordiv_def range3_def Let_def)

lemma fold_run_process: "fold (\<lambda>i. run_process (f i)) xs D = D"
  by (induction xs) (simp_all add: run_process_def)

lemma p_large:
  assumes "8 \<le> length X"
  shows "eucl_dist_matrix_p X = Inr (empty_square_matrix (length X))"
proof -
  have "int (length X) div 8 \<noteq> 0"
    using assms by (simp add: div_eq_0_iff)
  then show ?thesis
    by (simp add: eucl_dist_matrix_p_def floordiv_def range3_def Let_def fold_run_process)
qed

lemma seq_empty: "eucl_dist_matrix [] = Inr []"
  by (simp add: eucl_dist_matrix_eq distance_matrix_spec_def)

section \<open>The distance function within the float range\<close>

text \<open>
  On inputs within the float range no operation overflows and every intermediate result is
  the exact one, so \<open>eucl_dist_num\<close> returns the square root of the sum of the squared
  differences.
\<close>

lemma float_limit_gt_1: "1 < float_limit"
  by (simp add: float_limit_def)


lemma in_range_cases:
  assumes "in_range a"
  obtains i where "a = IntNum i" "\<bar>real_of_int i\<bar> < float_limit"
        | r where "a = FloatNum (Finite r)" "\<bar>r\<bar> < float_limit"
  using assms by (cases a rule: in_range.cases) simp_all

lemma as_float_in_range:
  assumes "in_range a"
  shows "as_float a = Inr (Finite (num_val a))"
  using assms by (cases rule: in_range_cases) (simp_all add: as_float_def)

lemma rounded_in_range:
  assumes "\<bar>r\<bar> < float_limit"
  shows "rounded r = Finite r"
proof -
  have "\<not> float_limit \<le> r" "\<not> r \<le> - float_limit"
    using assms by linarith+
  then show ?thesis by (simp add: rounded_def)
qed

lemma num_sub_in_range:
  assumes "in_range a" "in_range b" "\<bar>num_val a - num_val b\<bar> < float_limit"
  shows "\<exists>c. num_sub a b = Inr c \<and> in_range c \<and> num_val c = num_val a - num_val b"
proof (cases "\<exists>i j. a = IntNum i \<and> b = IntNum j")
  case True
  then obtain i j where "a = IntNum i" "b = IntNum j" by blast
  then show ?thesis using assms(3) by simp
next
  case False
  then have "num_sub a b =
      bind (as_float a) (\<lambda>v. bind (as_float b) (\<lambda>w. Inr (FloatNum (float_sub v w))))"
    by (cases a; cases b) simp_all
  then have "num_sub a b = Inr (FloatNum (Finite (num_val a - num_val b)))"
    using assms by (simp add: as_float_in_range rounded_in_range)
  then show ?thesis using assms(3) by simp
qed

lemma num_add_in_range:
  assumes "in_range a" "in_range b" "\<bar>num_val a + num_val b\<bar> < float_limit"
  shows "\<exists>c. num_add a b = Inr c \<and> in_range c \<and> num_val c = num_val a + num_val b"
proof (cases "\<exists>i j. a = IntNum i \<and> b = IntNum j")
  case True
  then obtain i j where "a = IntNum i" "b = IntNum j" by blast
  then show ?thesis using assms(3) by simp
next
  case False
  then have "num_add a b =
      bind (as_float a) (\<lambda>v. bind (as_float b) (\<lambda>w. Inr (FloatNum (float_add v w))))"
    by (cases a; cases b) simp_all
  then have "num_add a b = Inr (FloatNum (Finite (num_val a + num_val b)))"
    using assms by (simp add: as_float_in_range rounded_in_range)
  then show ?thesis using assms(3) by simp
qed

lemma num_pow2_in_range:
  assumes "in_range c" "(num_val c)\<^sup>2 < float_limit"
  shows "\<exists>s. num_pow2 c = Inr s \<and> in_range s \<and> num_val s = (num_val c)\<^sup>2"
  using assms(1)
proof (cases rule: in_range_cases)
  case (1 i)
  then show ?thesis using assms(2) by simp
next
  case (2 r)
  then show ?thesis using assms(2) by (simp add: float_pow2_def)
qed

lemma abs_less_of_square_less:
  assumes "d\<^sup>2 < float_limit"
  shows "\<bar>d\<bar> < float_limit"
proof (rule ccontr)
  assume "\<not> \<bar>d\<bar> < float_limit"
  then have l: "float_limit \<le> \<bar>d\<bar>" by simp
  then have "1 \<le> \<bar>d\<bar>" using float_limit_gt_1 by linarith
  then have "\<bar>d\<bar> * 1 \<le> \<bar>d\<bar> * \<bar>d\<bar>" by (intro mult_left_mono) simp_all
  then have "\<bar>d\<bar> \<le> d\<^sup>2" by (simp add: power2_eq_square)
  then show False using l assms by linarith
qed

lemma squared_difference_in_range:
  assumes "in_range a" "in_range b" "(num_val a - num_val b)\<^sup>2 < float_limit"
  shows "\<exists>e. bind (num_sub a b) num_pow2 = Inr e \<and> in_range e \<and>
             num_val e = (num_val a - num_val b)\<^sup>2"
proof -
  obtain c where c: "num_sub a b = Inr c" "in_range c" "num_val c = num_val a - num_val b"
    using num_sub_in_range [OF assms(1,2) abs_less_of_square_less [OF assms(3)]] by blast
  show ?thesis
    using num_pow2_in_range [of c] c assms(3) by simp
qed

lemma squared_differences_in_range:
  assumes "list_all (\<lambda>(a, b). in_range a \<and> in_range b) ps"
    and "\<forall>(a, b) \<in> set ps. (num_val a - num_val b)\<^sup>2 < float_limit"
  shows "\<exists>es. squared_differences ps = Inr es \<and> list_all in_range es \<and>
              map num_val es = map (\<lambda>(a, b). (num_val a - num_val b)\<^sup>2) ps"
  using assms
proof (induction ps)
  case Nil
  then show ?case by simp
next
  case (Cons p ps)
  obtain a b where p: "p = (a, b)" by (cases p)
  have ab: "in_range a" "in_range b" "(num_val a - num_val b)\<^sup>2 < float_limit"
    using Cons.prems by (simp_all add: p)
  obtain e where e: "bind (num_sub a b) num_pow2 = Inr e" "in_range e"
      "num_val e = (num_val a - num_val b)\<^sup>2"
    using squared_difference_in_range [OF ab] by blast
  obtain es where es: "squared_differences ps = Inr es" "list_all in_range es"
      "map num_val es = map (\<lambda>(a, b). (num_val a - num_val b)\<^sup>2) ps"
    using Cons.IH Cons.prems by auto
  show ?case by (simp add: p e es)
qed

lemma sum_from_in_range:
  assumes "in_range acc" "0 \<le> num_val acc" "list_all in_range es" "\<forall>e \<in> set es. 0 \<le> num_val e"
    and "num_val acc + sum_list (map num_val es) < float_limit"
  shows "\<exists>s. sum_from acc es = Inr s \<and> in_range s \<and>
             num_val s = num_val acc + sum_list (map num_val es)"
  using assms
proof (induction es arbitrary: acc)
  case Nil
  then show ?case by simp
next
  case (Cons e es)
  have rest: "0 \<le> sum_list (map num_val es)"
    using Cons.prems(4) by (intro sum_list_nonneg) auto
  have e0: "0 \<le> num_val e" using Cons.prems(4) by simp
  have "\<bar>num_val acc + num_val e\<bar> < float_limit"
    using Cons.prems(2,5) e0 rest by simp
  then obtain acc' where a': "num_add acc e = Inr acc'" "in_range acc'"
      "num_val acc' = num_val acc + num_val e"
    using num_add_in_range [of acc e] Cons.prems(1,3) by auto
  have "\<exists>s. sum_from acc' es = Inr s \<and> in_range s \<and>
             num_val s = num_val acc' + sum_list (map num_val es)"
    using Cons.prems a' e0 by (intro Cons.IH) (simp_all add: add.assoc)
  then show ?case by (simp add: a' add.assoc)
qed

lemma math_sqrt_in_range:
  assumes "in_range s" "0 \<le> num_val s"
  shows "math_sqrt s = Inr (FloatNum (Finite (sqrt (num_val s))))"
  using assms by (simp add: math_sqrt_def as_float_in_range)

lemma elem_le_sum_list:
  fixes xs :: "real list"
  assumes "\<forall>x \<in> set xs. 0 \<le> x" "x \<in> set xs"
  shows "x \<le> sum_list xs"
  using assms
proof (induction xs)
  case Nil
  then show ?case by simp
next
  case (Cons a xs)
  have "0 \<le> sum_list xs" using Cons.prems(1) by (intro sum_list_nonneg) simp
  moreover have "0 \<le> a" using Cons.prems(1) by simp
  ultimately show ?case using Cons by auto
qed

lemma eucl_dist_num_in_range:
  assumes "in_float_range x y"
  shows "eucl_dist_num x y =
           Inr (FloatNum (Finite (sqrt (sum_list (map (\<lambda>(a, b). (num_val a - num_val b)\<^sup>2) (zip x y))))))"
proof -
  let ?sq = "\<lambda>(a, b). (num_val a - num_val b)\<^sup>2"
  let ?total = "sum_list (map ?sq (zip x y))"
  have rng: "list_all (\<lambda>(a, b). in_range a \<and> in_range b) (zip x y)" and tot: "?total < float_limit"
    using assms by (simp_all add: in_float_range_def)
  have nonneg: "\<forall>v \<in> set (map ?sq (zip x y)). 0 \<le> v" by auto
  have each: "\<forall>(a, b) \<in> set (zip x y). (num_val a - num_val b)\<^sup>2 < float_limit"
  proof -
    have "?sq p < float_limit" if "p \<in> set (zip x y)" for p
    proof -
      have "?sq p \<in> set (map ?sq (zip x y))" using that by simp
      then have "?sq p \<le> ?total" by (rule elem_le_sum_list [OF nonneg])
      then show ?thesis using tot by linarith
    qed
    then show ?thesis by auto
  qed
  obtain es where es: "squared_differences (zip x y) = Inr es" "list_all in_range es"
      "map num_val es = map ?sq (zip x y)"
    using squared_differences_in_range [OF rng each] by blast
  have es_nonneg: "\<forall>e \<in> set es. 0 \<le> num_val e"
  proof
    fix e assume "e \<in> set es"
    then have "num_val e \<in> set (map num_val es)" by simp
    then show "0 \<le> num_val e" using nonneg by (simp only: es(3))
  qed
  have "\<exists>s. sum_from (IntNum 0) es = Inr s \<and> in_range s \<and>
            num_val s = num_val (IntNum 0) + sum_list (map num_val es)"
    using es(2) es_nonneg tot float_limit_gt_1 by (intro sum_from_in_range) (simp_all add: es(3))
  then obtain s where s: "sum_from (IntNum 0) es = Inr s" "in_range s" "num_val s = ?total"
    by (auto simp: es(3))
  have "0 \<le> ?total" by (rule sum_list_nonneg) auto
  then have "math_sqrt s = Inr (FloatNum (Finite (sqrt ?total)))"
    using math_sqrt_in_range [OF s(2)] by (simp add: s(3))
  then show ?thesis by (simp add: eucl_dist_num_def es(1) s(1))
qed


lemma eucl_dist_num_value:
  assumes "in_float_range x y"
  shows "eucl_dist_num x y = Inr (FloatNum (Finite (eucl_dist (map num_val x) (map num_val y))))"
proof -
  have "map (\<lambda>(a, b). (a - b)\<^sup>2) (zip (map num_val x) (map num_val y)) =
        map (\<lambda>(a, b). (num_val a - num_val b)\<^sup>2) (zip x y)"
    by (simp add: zip_map_map case_prod_unfold)
  then show ?thesis
    using eucl_dist_num_in_range [OF assms] by (simp add: eucl_dist_def)
qed


section \<open>The sequential builder within the float range\<close>

text \<open>
  On a dataset within the float range the builder on Python's numbers returns, as floats,
  the matrix that the builder in exact arithmetic returns; beyond the range it can raise
  \<open>OverflowError\<close>.
\<close>

lemma empty_square_matrix_num_eq:
  "empty_square_matrix_num n = replicate n (replicate n (IntNum 0))"
  by (simp add: empty_square_matrix_num_def fold_append_const)

lemma task_num_ok:
  assumes "i < length X" "j < length X" "i < length D" "j < length (D ! i)"
    and "eucl_dist_num (X ! i) (X ! j) = Inr d"
  shows "task_num D X i j = Inr (D[i := (D ! i)[j := d]])"
  using assms by (simp add: task_num_def getitem_def setitem_def)

lemma for_each_append:
  "for_each (xs @ ys) body s = bind (for_each xs body s) (for_each ys body)"
proof (induction xs arbitrary: s)
  case Nil
  then show ?case by simp
next
  case (Cons x xs)
  then show ?case by (cases "body x s") simp_all
qed

lemma row_loop_num:
  assumes "length X = n" "length D = n" "i < n" "length (D ! i) = n" "m \<le> n"
    and "\<forall>j<n. eucl_dist_num (X ! i) (X ! j) = Inr (v j)"
  shows "for_each [0..<m] (\<lambda>j D. task_num D X i j) D =
           Inr (D[i := map v [0..<m] @ drop m (D ! i)])"
  using assms(5)
proof (induction m)
  case 0
  then show ?case by simp
next
  case (Suc m)
  let ?D1 = "D[i := map v [0..<m] @ drop m (D ! i)]"
  have m: "m < n" using Suc.prems by simp
  have ih: "for_each [0..<m] (\<lambda>j D. task_num D X i j) D = Inr ?D1"
    using Suc by simp
  have row1: "?D1 ! i = map v [0..<m] @ drop m (D ! i)"
    using assms(2,3) by simp
  have "task_num ?D1 X i m = Inr (?D1[i := (?D1 ! i)[m := v m]])"
    using assms m by (intro task_num_ok) (simp_all add: row1)
  moreover have "(?D1 ! i)[m := v m] = map v [0..<Suc m] @ drop (Suc m) (D ! i)"
  proof -
    have dr: "drop m (D ! i) = (D ! i) ! m # drop (Suc m) (D ! i)"
      using assms(4) m by (simp add: Cons_nth_drop_Suc)
    have "(?D1 ! i)[m := v m] = (map v [0..<m] @ drop m (D ! i))[m := v m]"
      by (simp only: row1)
    also have "\<dots> = map v [0..<m] @ (drop m (D ! i))[0 := v m]"
      by (simp add: list_update_append)
    also have "(drop m (D ! i))[0 := v m] = v m # drop (Suc m) (D ! i)"
      by (subst dr) simp
    finally show ?thesis by simp
  qed
  ultimately have step: "task_num ?D1 X i m = Inr (D[i := map v [0..<Suc m] @ drop (Suc m) (D ! i)])"
    by (simp only: list_update_overwrite)
  have "for_each [0..<Suc m] (\<lambda>j D. task_num D X i j) D =
        bind (for_each [0..<m] (\<lambda>j D. task_num D X i j) D) (for_each [m] (\<lambda>j D. task_num D X i j))"
    by (simp add: for_each_append)
  also have "\<dots> = for_each [m] (\<lambda>j D. task_num D X i j) ?D1"
    by (simp only: ih bind.simps)
  also have "\<dots> = bind (task_num ?D1 X i m) Inr"
    by (simp only: for_each.simps) (rule arg_cong [where f = "bind _"], rule ext, simp)
  also have "\<dots> = Inr (D[i := map v [0..<Suc m] @ drop (Suc m) (D ! i)])"
    by (simp only: step bind.simps)
  finally show ?case .
qed

lemma matrix_loop_num:
  assumes "length X = n" "length D = n" "\<forall>r<n. length (D ! r) = n" "m \<le> n"
    and "\<forall>i<n. \<forall>j<n. eucl_dist_num (X ! i) (X ! j) = Inr (v i j)"
  shows "for_each [0..<m] (\<lambda>i. for_each [0..<n] (\<lambda>j D. task_num D X i j)) D =
           Inr (map (\<lambda>i. map (v i) [0..<n]) [0..<m] @ drop m D)"
  using assms(4)
proof (induction m)
  case 0
  then show ?case by simp
next
  case (Suc m)
  let ?D1 = "map (\<lambda>i. map (v i) [0..<n]) [0..<m] @ drop m D"
  have m: "m < n" using Suc.prems by simp
  have ih: "for_each [0..<m] (\<lambda>i. for_each [0..<n] (\<lambda>j D. task_num D X i j)) D = Inr ?D1"
    using Suc by simp
  have len1: "length ?D1 = n"
    using assms(2) m by simp
  have dr: "drop m D = D ! m # drop (Suc m) D"
    using assms(2) m by (simp add: Cons_nth_drop_Suc)
  have row1: "?D1 ! m = D ! m"
    using assms(2) m by (simp add: nth_append)
  have lrow: "length (?D1 ! m) = n"
    using assms(3) m by (simp only: row1)
  have "for_each [0..<n] (\<lambda>j D. task_num D X m j) ?D1 =
          Inr (?D1[m := map (v m) [0..<n] @ drop n (?D1 ! m)])"
    using assms(5) m by (intro row_loop_num [OF assms(1) len1 m lrow]) simp_all
  moreover have "drop n (?D1 ! m) = []"
    using lrow by simp
  moreover have "?D1[m := map (v m) [0..<n]] =
                 map (\<lambda>i. map (v i) [0..<n]) [0..<Suc m] @ drop (Suc m) D"
  proof -
    have "?D1[m := map (v m) [0..<n]] =
          map (\<lambda>i. map (v i) [0..<n]) [0..<m] @ (drop m D)[0 := map (v m) [0..<n]]"
      by (simp add: list_update_append)
    also have "(drop m D)[0 := map (v m) [0..<n]] = map (v m) [0..<n] # drop (Suc m) D"
      by (subst dr) simp
    finally show ?thesis by simp
  qed
  ultimately have step: "for_each [0..<n] (\<lambda>j D. task_num D X m j) ?D1 =
      Inr (map (\<lambda>i. map (v i) [0..<n]) [0..<Suc m] @ drop (Suc m) D)"
    by (simp only: append_Nil2)
  have "for_each [0..<Suc m] (\<lambda>i. for_each [0..<n] (\<lambda>j D. task_num D X i j)) D =
        bind (for_each [0..<m] (\<lambda>i. for_each [0..<n] (\<lambda>j D. task_num D X i j)) D)
          (for_each [m] (\<lambda>i. for_each [0..<n] (\<lambda>j D. task_num D X i j)))"
    by (simp add: for_each_append)
  also have "\<dots> = for_each [m] (\<lambda>i. for_each [0..<n] (\<lambda>j D. task_num D X i j)) ?D1"
    by (simp only: ih bind.simps)
  also have "\<dots> = bind (for_each [0..<n] (\<lambda>j D. task_num D X m j) ?D1) Inr"
    by (simp only: for_each.simps) (rule arg_cong [where f = "bind _"], rule ext, simp)
  also have "\<dots> = Inr (map (\<lambda>i. map (v i) [0..<n]) [0..<Suc m] @ drop (Suc m) D)"
    by (simp only: step bind.simps)
  finally show ?case .
qed

lemma eucl_dist_matrix_num_returns:
  assumes "\<forall>i<length X. \<forall>j<length X. eucl_dist_num (X ! i) (X ! j) = Inr (v i j)"
  shows "eucl_dist_matrix_num X =
           Inr (map (\<lambda>i. map (v i) [0..<length X]) [0..<length X])"
proof -
  let ?n = "length X"
  have "for_each [0..<?n] (\<lambda>i. for_each [0..<?n] (\<lambda>j D. task_num D X i j))
          (empty_square_matrix_num ?n) =
        Inr (map (\<lambda>i. map (v i) [0..<?n]) [0..<?n] @ drop ?n (empty_square_matrix_num ?n))"
    using assms by (intro matrix_loop_num) (simp_all add: empty_square_matrix_num_eq)
  then show ?thesis
    by (simp add: eucl_dist_matrix_num_def Let_def empty_square_matrix_num_eq)
qed

lemma eucl_dist_matrix_num_in_range:
  assumes "dataset_in_float_range X"
  shows "eucl_dist_matrix_num X =
           Inr (map (map (\<lambda>r. FloatNum (Finite r))) (distance_matrix_spec (map (map num_val) X)))"
proof -
  let ?n = "length X"
  let ?v = "\<lambda>i j. FloatNum (Finite (eucl_dist (map num_val (X ! i)) (map num_val (X ! j))))"
  have "eucl_dist_num (X ! i) (X ! j) = Inr (?v i j)" if "i < ?n" "j < ?n" for i j
  proof -
    have "in_float_range (X ! i) (X ! j)"
      using assms that unfolding dataset_in_float_range_def list_all_iff by simp
    then show ?thesis by (rule eucl_dist_num_value)
  qed
  then have "eucl_dist_matrix_num X = Inr (map (\<lambda>i. map (?v i) [0..<?n]) [0..<?n])"
    by (intro eucl_dist_matrix_num_returns) simp
  also have "map (\<lambda>i. map (?v i) [0..<?n]) [0..<?n] =
             map (map (\<lambda>r. FloatNum (Finite r))) (distance_matrix_spec (map (map num_val) X))"
    by (simp add: distance_matrix_spec_nth)
  finally show ?thesis .
qed

lemma eucl_dist_matrix_num_overflow:
  "eucl_dist_matrix_num [[IntNum (10 ^ 155)], [IntNum 0]] = Inl OverflowError"
  by (simp add: eucl_dist_matrix_num_def empty_square_matrix_num_eq task_num_def getitem_def
      setitem_def eucl_dist_num_def math_sqrt_def as_float_def float_limit_def)

section \<open>The claims of the specification\<close>

subsection \<open>The distance function\<close>









subsection \<open>The sequential builder\<close>



text \<open>
  C4. For every dataset and all valid indices \<open>i\<close> and \<open>j\<close>, the matrix returned by the
  builder has equal entries at \<open>(i, j)\<close> and \<open>(j, i)\<close>.
\<close>

theorem eucl_dist_matrix_symmetric:
  "\<exists>D. eucl_dist_matrix X = Inr D \<and> (\<forall>i<length X. \<forall>j<length X. D ! i ! j = D ! j ! i)"
  by (simp add: eucl_dist_matrix_eq distance_matrix_spec_entries eucl_dist_commute)

theorem eucl_dist_matrix_symmetric_witness:
  "(0::nat) < length [[0, 0], [3, 4 :: real]] \<and> (1::nat) < length [[0, 0], [3, 4 :: real]] \<and>
   (\<exists>D. eucl_dist_matrix [[0, 0], [3, 4]] = Inr D \<and> D ! 0 ! 1 = D ! 1 ! 0)"
  using eucl_dist_matrix_symmetric [of "[[0, 0], [3, 4]]"] by auto

text \<open>
  C5. For every dataset and every valid index \<open>i\<close>, the matrix returned by the builder
  has \<open>0\<close> at \<open>(i, i)\<close>.
\<close>

theorem eucl_dist_matrix_zero_diagonal:
  "\<exists>D. eucl_dist_matrix X = Inr D \<and> (\<forall>i<length X. D ! i ! i = 0)"
  by (simp add: eucl_dist_matrix_eq distance_matrix_spec_entries eucl_dist_self)

theorem eucl_dist_matrix_zero_diagonal_witness:
  "(1::nat) < length [[0, 0], [3, 4 :: real]] \<and>
   (\<exists>D. eucl_dist_matrix [[0, 0], [3, 4]] = Inr D \<and> D ! 1 ! 1 = 0)"
  using eucl_dist_matrix_zero_diagonal [of "[[0, 0], [3, 4]]"] by auto

text \<open>
  C8. On the dataset \<open>[[0, 0], [3, 4]]\<close> the builder returns \<open>[[0, 5], [5, 0]]\<close>, and on
  \<open>[[1, 1, 1]]\<close> it returns \<open>[[0]]\<close>.
\<close>

theorem eucl_dist_matrix_examples:
  "eucl_dist_matrix [[0, 0], [3, 4]] = Inr [[0, 5], [5, 0]] \<and>
   eucl_dist_matrix [[1, 1, 1]] = Inr [[0]]"
  by (simp add: eucl_dist_matrix_eq distance_matrix_spec_def eucl_dist_def sqrt_25)

subsection \<open>The shuffled builder\<close>

text \<open>
  C6. The result does not depend on the order in which the index pairs are visited: for
  every dataset, every order of the rows and, for each row, every order of the columns
  (each index drawn exactly once), the shuffled builder returns what the sequential builder
  returns.
\<close>

theorem eucl_dist_matrix_shuffled_eq:
  assumes "valid_samples (length X) samples"
  shows "eucl_dist_matrix_shuffled X samples = eucl_dist_matrix X"
  using valid_samples_sets [OF assms]
  by (simp add: eucl_dist_matrix_shuffled_def Let_def shuffled_any_order eucl_dist_matrix_eq)

theorem eucl_dist_matrix_shuffled_eq_witness:
  "valid_samples (length [[0, 0], [3, 4 :: real]]) [(1, [1, 0]), (0, [0, 1])] \<and>
   eucl_dist_matrix_shuffled [[0, 0], [3, 4]] [(1, [1, 0]), (0, [0, 1])] =
     eucl_dist_matrix [[0, 0], [3, 4]]"
proof -
  have v: "valid_samples (length [[0, 0], [3, 4 :: real]]) [(1, [1, 0]), (0, [0, 1])]"
    by (simp add: valid_samples_def upt_rec)
  show ?thesis using v eucl_dist_matrix_shuffled_eq [OF v] by simp
qed

subsection \<open>The partitioned builders\<close>

text \<open>
  C1 states that the thread-partitioned builder returns the sequential builder's matrix
  for every partition count. With the default of \<open>8\<close> partitions and the two-row dataset
  \<open>[[0, 0], [3, 4]]\<close> the chunk size is \<open>2 // 8 = 0\<close>, \<open>range(0, 2, 0)\<close> raises
  \<open>ValueError\<close> and no matrix is returned, while the sequential builder returns
  \<open>[[0, 5], [5, 0]]\<close>. (For \<open>1 \<le> n_jobs \<le> n\<close> the two builders agree, by
  \<open>eucl_dist_matrix_thr_4_in_range\<close>.)
\<close>

theorem eucl_dist_matrix_thr_4_small_dataset:
  "eucl_dist_matrix_thr_4 [[0, 0], [3, 4]] 8 = Inl ValueError \<and>
   eucl_dist_matrix [[0, 0], [3, 4]] = Inr [[0, 5], [5, 0]]"
  by (simp add: thr_4_fail eucl_dist_matrix_eq distance_matrix_spec_def eucl_dist_def sqrt_25)

text \<open>
  C9 states that the matrix builders fail on nothing but vectors of different lengths and
  the empty dataset. The process-partitioned builder fails on the two-row dataset
  \<open>[[0, 0], [3, 4]]\<close>, whose rows have equal lengths: the chunk size is \<open>2 // 8 = 0\<close>
  and \<open>range(0, 2, 0)\<close> raises \<open>ValueError\<close>, as in the thread-partitioned builder.
\<close>

theorem eucl_dist_matrix_p_small_dataset:
  "eucl_dist_matrix_p [[0, 0], [3, 4]] = Inl ValueError"
  by (simp add: eucl_dist_matrix_p_def floordiv_def range3_def)

end
